theory Spec2Isabelle
  imports Complex_Main
begin

section \<open>The game of \<^verbatim>\<open>src/main.js\<close>: data model\<close>

text \<open>
  The program is one closure over a few mutable variables: the player object, the two key
  sets, and the two scheduler variables. The embedding gathers them in one record and
  passes it through every function that the source lets mutate it.

  JavaScript numbers are IEEE-754 doubles. They are idealised here as real numbers with
  exact arithmetic: no rounding, no infinities, no NaN. Every statement below about a
  numeric value is a statement about this idealisation.
\<close>

subsection \<open>World constants (lines 11-15)\<close>

definition GROUND_Y :: real where
  "GROUND_Y = 400"

definition GRAVITY :: real where
  "GRAVITY = 1600"

definition STEP :: real where
  "STEP = 1 / 60"

definition MOVE_ACCEL :: real where
  "MOVE_ACCEL = 1200"

definition FRICTION :: real where
  "FRICTION = 0.90"

subsection \<open>State (lines 18, 23-24, 36-37)\<close>

record player =
  x :: real
  y :: real
  w :: real
  h :: real
  vx :: real
  vy :: real
  onGround :: bool

text \<open>
  \<open>down\<close> and \<open>pressed\<close> are the two \<^verbatim>\<open>Set\<close> objects of key codes; only membership
  is ever read. \<open>last_t\<close> and \<open>acc_t\<close> are the source's \<^verbatim>\<open>last\<close> and \<^verbatim>\<open>acc\<close>
  (renamed: both names are constants of the library).
\<close>

record game =
  player :: player
  down :: "string set"
  pressed :: "string set"
  last_t :: real
  acc_t :: real

definition player0 :: player where
  "player0 = \<lparr>x = 100, y = 300, w = 32, h = 32, vx = 0, vy = 0, onGround = False\<rparr>"

text \<open>The state when the closure has run its set-up; \<open>t0\<close> is the first clock reading.\<close>

definition init :: "real \<Rightarrow> game" where
  "init t0 = \<lparr>player = player0, down = {}, pressed = {}, last_t = t0, acc_t = 0\<rparr>"

subsection \<open>Input handling (lines 26-33)\<close>

definition keydown :: "string \<Rightarrow> game \<Rightarrow> game" where
  "keydown code g =
     (let g = (if code \<notin> down g then g\<lparr>pressed := insert code (pressed g)\<rparr> else g)
      in g\<lparr>down := insert code (down g)\<rparr>)"

definition keyup :: "string \<Rightarrow> game \<Rightarrow> game" where
  "keyup code g = g\<lparr>down := down g - {code}\<rparr>"

definition held :: "string list \<Rightarrow> game \<Rightarrow> bool" where
  "held codes g = list_ex (\<lambda>c. c \<in> down g) codes"

definition justPressed :: "string list \<Rightarrow> game \<Rightarrow> bool" where
  "justPressed codes g = list_ex (\<lambda>c. c \<in> pressed g) codes"

subsection \<open>The physics step (lines 56-85)\<close>

text \<open>
  Each \<open>let\<close> binding is one assignment of the source, in the source's order; a name
  bound again stands for the variable after the assignment.
\<close>

definition update :: "real \<Rightarrow> game \<Rightarrow> game" where
  "update dt g =
     (let p = player g;
          ax = 0;
          ax = (if held [''ArrowLeft'', ''KeyA''] g then ax - MOVE_ACCEL else ax);
          ax = (if held [''ArrowRight'', ''KeyD''] g then ax + MOVE_ACCEL else ax);
          p = p\<lparr>vx := vx p + ax * dt\<rparr>;
          p = p\<lparr>vx := vx p * FRICTION\<rparr>;
          p = (if onGround p \<and> justPressed [''Space'', ''KeyW'', ''ArrowUp''] g
               then p\<lparr>vy := - 650, onGround := False\<rparr> else p);
          p = p\<lparr>vy := vy p + GRAVITY * dt\<rparr>;
          p = p\<lparr>x := x p + vx p * dt\<rparr>;
          p = p\<lparr>y := y p + vy p * dt\<rparr>;
          p = (if y p + h p > GROUND_Y
               then p\<lparr>y := GROUND_Y - h p, vy := 0, onGround := True\<rparr> else p)
      in g\<lparr>player := p\<rparr>)"

subsection \<open>The scheduler (lines 39-53)\<close>

text \<open>
  The \<^verbatim>\<open>while\<close> loop of \<^verbatim>\<open>loop\<close>. The second argument is not a variable of the
  source: it counts the calls of \<open>update\<close> made so far, so that the number of physics
  steps of a tick can be stated.

  Here the idealisation of the numbers shows: \<open>STEP\<close> is the real \<open>1 / 60\<close> and the
  subtractions are exact, while the source's \<^verbatim>\<open>STEP\<close> is the double nearest to it and each
  \<^verbatim>\<open>acc -= STEP\<close> and \<^verbatim>\<open>now - last\<close> is rounded. At clock readings where the accumulator
  comes within a rounding error of a multiple of \<open>STEP\<close> the source can make one step more
  or fewer than this function. The statements below about numbers of steps are therefore
  about ticks whose accumulated time is given exactly, not about all clock readings.
\<close>

function drain :: "game \<Rightarrow> nat \<Rightarrow> game \<times> nat" where
  "drain g n =
     (if acc_t g \<ge> STEP
      then (let g = update STEP g;
                g = g\<lparr>acc_t := acc_t g - STEP\<rparr>;
                g = g\<lparr>pressed := {}\<rparr>
            in drain g (Suc n))
      else (g, n))"
  by pat_completeness auto
termination
proof (relation "measure (\<lambda>(g, n). nat \<lfloor>acc_t g / STEP\<rfloor>)")
  show "wf (measure (\<lambda>(g, n). nat \<lfloor>acc_t g / STEP\<rfloor>))"
    by simp
next
  fix g :: game and n :: nat and g1 g2 g3 :: game
  assume big: "STEP \<le> acc_t g"
    and g1: "g1 = update STEP g"
    and g2: "g2 = g1\<lparr>acc_t := acc_t g1 - STEP\<rparr>"
    and g3: "g3 = g2\<lparr>pressed := {}\<rparr>"
  have same: "acc_t g1 = acc_t g"
    by (simp add: g1 update_def Let_def)
  have "acc_t g3 / STEP = acc_t g / STEP - 1"
    by (simp add: g3 g2 same STEP_def)
  moreover have "1 \<le> acc_t g / STEP"
    using big by (simp add: STEP_def)
  ultimately have "\<lfloor>acc_t g3 / STEP\<rfloor> = \<lfloor>acc_t g / STEP\<rfloor> - 1" and "1 \<le> \<lfloor>acc_t g / STEP\<rfloor>"
    by simp_all
  then show "((g3, Suc n), (g, n)) \<in> measure (\<lambda>(g, n). nat \<lfloor>acc_t g / STEP\<rfloor>)"
    by simp
qed

declare drain.simps [simp del]

text \<open>
  One call of \<^verbatim>\<open>loop\<close>, up to the end of the \<^verbatim>\<open>while\<close> loop. \<open>now\<close> is the clock
  reading \<^verbatim>\<open>performance.now() / 1000\<close>. The result is the state handed to \<^verbatim>\<open>render\<close>
  and the number of physics steps of this tick. \<^verbatim>\<open>render\<close> only draws, and
  \<^verbatim>\<open>requestAnimationFrame\<close> only asks for the next call: neither touches the state.
\<close>

definition loop :: "real \<Rightarrow> game \<Rightarrow> game \<times> nat" where
  "loop now g =
     (let dt = now - last_t g;
          g = g\<lparr>last_t := now\<rparr>;
          dt = (if dt > 0.25 then 0.25 else dt);
          g = g\<lparr>acc_t := acc_t g + dt\<rparr>
      in drain g 0)"

subsection \<open>The event loop\<close>

text \<open>
  The browser calls the two key listeners and, once per display refresh, \<^verbatim>\<open>loop\<close>, one
  call at a time. A run of the program after its set-up is a list of such calls; a frame
  carries the clock reading that \<^verbatim>\<open>loop\<close> takes.
\<close>

datatype event = KeyDown string | KeyUp string | Frame real

fun deliver :: "event \<Rightarrow> game \<Rightarrow> game" where
  "deliver (KeyDown code) g = keydown code g"
| "deliver (KeyUp code) g = keyup code g"
| "deliver (Frame now) g = fst (loop now g)"

fun run :: "event list \<Rightarrow> game \<Rightarrow> game" where
  "run [] g = g"
| "run (e # es) g = run es (deliver e g)"

section \<open>Notions used to state the properties\<close>

text \<open>
  The condition of the jump statement (line 67), read off the sets: the player is on the
  ground and one of the three jump codes is in \<open>pressed\<close>.
\<close>

definition launches :: "game \<Rightarrow> bool" where
  "launches g \<longleftrightarrow> onGround (player g) \<and>
     (''Space'' \<in> pressed g \<or> ''KeyW'' \<in> pressed g \<or> ''ArrowUp'' \<in> pressed g)"

text \<open>The invariant of the entity that the specification gives in its data model.\<close>

definition entity_inv :: "player \<Rightarrow> bool" where
  "entity_inv p \<longleftrightarrow>
     y p + h p \<le> GROUND_Y \<and> (onGround p \<longrightarrow> y p + h p = GROUND_Y \<and> vy p = 0)"

text \<open>An entity at rest on the ground line.\<close>

definition grounded :: "player \<Rightarrow> bool" where
  "grounded p \<longleftrightarrow> onGround p \<and> vy p = 0 \<and> y p = GROUND_Y - h p"

text \<open>
  A run of physics steps as the scheduler makes them, each with \<open>dt = STEP\<close>. Between two
  steps key events and the consumption of \<open>pressed\<close> may change the key sets in any way:
  each step reads the pair \<open>(down, pressed)\<close> given for it.
\<close>

fun steps :: "(string set \<times> string set) list \<Rightarrow> game \<Rightarrow> game" where
  "steps [] g = g"
| "steps ((d, pr) # ins) g = steps ins (update STEP (g\<lparr>down := d, pressed := pr\<rparr>))"

text \<open>
  The clock never runs backwards: each frame's reading is at least the one before it,
  starting from \<open>t\<close> (the browser's \<^verbatim>\<open>performance.now\<close> is monotonic).
\<close>

fun monotone_clock :: "real \<Rightarrow> event list \<Rightarrow> bool" where
  "monotone_clock t [] = True"
| "monotone_clock t (Frame now # es) = (t \<le> now \<and> monotone_clock now es)"
| "monotone_clock t (e # es) = monotone_clock t es"

text \<open>
  The two conditions of lines 59 and 60 read off the set \<open>down\<close>, and the velocity that the
  specification names as the steady state of a player pushed to the right.
\<close>

definition push_left :: "string set \<Rightarrow> bool" where
  "push_left d \<longleftrightarrow> ''ArrowLeft'' \<in> d \<or> ''KeyA'' \<in> d"

definition push_right :: "string set \<Rightarrow> bool" where
  "push_right d \<longleftrightarrow> ''ArrowRight'' \<in> d \<or> ''KeyD'' \<in> d"

definition vx_eq :: real where
  "vx_eq = MOVE_ACCEL * STEP * FRICTION / (1 - FRICTION)"

text \<open>A concrete state for evaluation: the player at rest on the ground line with given key sets.\<close>

definition standing :: "string set \<Rightarrow> string set \<Rightarrow> game" where
  "standing d pr =
     \<lparr>player = \<lparr>x = 100, y = 368, w = 32, h = 32, vx = 0, vy = 0, onGround = True\<rparr>,
      down = d, pressed = pr, last_t = 0, acc_t = 0\<rparr>"

section \<open>Edge detection of key presses\<close>

text \<open>
  C4. After any sequence of key and frame events, a key-down event for a code puts the
  code into \<open>pressed\<close> exactly when the code was not in \<open>down\<close> just before the event; when
  the code is already in \<open>down\<close> the event leaves \<open>pressed\<close> as it was; in both cases the
  code is in \<open>down\<close> afterwards.
\<close>

theorem keydown_edge:
  "(code \<notin> down (run evs g) \<longrightarrow>
      pressed (keydown code (run evs g)) = insert code (pressed (run evs g)))
   \<and> (code \<in> down (run evs g) \<longrightarrow> pressed (keydown code (run evs g)) = pressed (run evs g))
   \<and> code \<in> down (keydown code (run evs g))
   \<and> down (keydown code (run evs g)) = insert code (down (run evs g))"
  by (simp add: keydown_def Let_def)

text \<open>
  Both cases at concrete histories: the key released again before the event, and the key
  held over a frame whose physics steps have consumed the press.
\<close>

theorem keydown_edge_witness:
  "''Space'' \<notin> down (run [KeyDown ''KeyD'', KeyDown ''Space'', KeyUp ''Space''] (init 0))
   \<and> ''Space'' \<in> pressed (keydown ''Space'' (run [KeyDown ''KeyD'', KeyDown ''Space'', KeyUp ''Space''] (init 0)))
   \<and> ''Space'' \<in> down (run [KeyDown ''Space'', Frame 1, KeyDown ''Space''] (init 0))
   \<and> pressed (keydown ''Space'' (run [KeyDown ''Space'', Frame 1, KeyDown ''Space''] (init 0)))
       = pressed (run [KeyDown ''Space'', Frame 1, KeyDown ''Space''] (init 0))"
proof -
  have up: "''Space'' \<notin> down (run [KeyDown ''KeyD'', KeyDown ''Space'', KeyUp ''Space''] (init 0))"
    by (simp add: keydown_def keyup_def init_def Let_def)
  have dn: "''Space'' \<in> down (run [KeyDown ''Space'', Frame 1, KeyDown ''Space''] (init 0))"
    by (simp add: keydown_def Let_def)
  from keydown_edge [of "''Space''" "[KeyDown ''KeyD'', KeyDown ''Space'', KeyUp ''Space'']" "init 0"] up
  have "''Space'' \<in> pressed (keydown ''Space'' (run [KeyDown ''KeyD'', KeyDown ''Space'', KeyUp ''Space''] (init 0)))"
    by simp
  moreover from keydown_edge [of "''Space''" "[KeyDown ''Space'', Frame 1, KeyDown ''Space'']" "init 0"] dn
  have "pressed (keydown ''Space'' (run [KeyDown ''Space'', Frame 1, KeyDown ''Space''] (init 0)))
       = pressed (run [KeyDown ''Space'', Frame 1, KeyDown ''Space''] (init 0))"
    by simp
  ultimately show ?thesis
    using up dn by simp
qed

section \<open>Frame of the physics step\<close>

text \<open>
  C10. A physics step writes only the fields \<open>x\<close>, \<open>y\<close>, \<open>vx\<close>, \<open>vy\<close> and \<open>onGround\<close> of the
  player: the result is the state before with those five fields replaced. In particular \<open>w\<close>
  and \<open>h\<close> keep their values and the key sets \<open>down\<close> and \<open>pressed\<close> (and the scheduler's
  variables) are the same after the step as before.
\<close>

theorem update_frame:
  "update dt g =
     g\<lparr>player := (player g)\<lparr>x := x (player (update dt g)), y := y (player (update dt g)),
         vx := vx (player (update dt g)), vy := vy (player (update dt g)),
         onGround := onGround (player (update dt g))\<rparr>\<rparr>
   \<and> w (player (update dt g)) = w (player g)
   \<and> h (player (update dt g)) = h (player g)
   \<and> down (update dt g) = down g
   \<and> pressed (update dt g) = pressed g
   \<and> last_t (update dt g) = last_t g
   \<and> acc_t (update dt g) = acc_t g"
  by (simp add: update_def Let_def)

section \<open>The vertical motion of one physics step\<close>

lemma justPressed_jump:
  "justPressed [''Space'', ''KeyW'', ''ArrowUp''] g \<longleftrightarrow>
     ''Space'' \<in> pressed g \<or> ''KeyW'' \<in> pressed g \<or> ''ArrowUp'' \<in> pressed g"
  by (simp add: justPressed_def)

lemma update_size: "w (player (update dt g)) = w (player g)" "h (player (update dt g)) = h (player g)"
  by (simp_all add: update_def Let_def)

text \<open>
  What one step does to \<open>y\<close>, \<open>vy\<close> and \<open>onGround\<close>: \<open>v1\<close> and \<open>y1\<close> are the velocity and
  the position after the jump check, gravity and integration, before the collision test.
\<close>

lemma update_vertical:
  "let p = player g;
       v1 = (if launches g then - 650 else vy p) + GRAVITY * dt;
       y1 = y p + v1 * dt;
       q = player (update dt g)
   in (if y1 + h p > GROUND_Y
       then y q = GROUND_Y - h p \<and> vy q = 0 \<and> onGround q
       else y q = y1 \<and> vy q = v1 \<and> onGround q = (onGround p \<and> \<not> launches g))"
proof (cases "launches g")
  case True
  then have "onGround (player g)" "justPressed [''Space'', ''KeyW'', ''ArrowUp''] g"
    by (simp_all add: launches_def justPressed_jump)
  with True show ?thesis
    by (simp add: update_def Let_def)
next
  case False
  then have "\<not> (onGround (player g) \<and> justPressed [''Space'', ''KeyW'', ''ArrowUp''] g)"
    by (simp add: launches_def justPressed_jump)
  with False show ?thesis
    by (cases "onGround (player g)") (simp_all add: update_def Let_def)
qed

text \<open>The vertical motion does not read the set \<open>down\<close>.\<close>

lemma update_vertical_down:
  "y (player (update dt (g\<lparr>down := d\<rparr>))) = y (player (update dt g))
     \<and> vy (player (update dt (g\<lparr>down := d\<rparr>))) = vy (player (update dt g))
     \<and> onGround (player (update dt (g\<lparr>down := d\<rparr>))) = onGround (player (update dt g))"
proof -
  have l: "launches (g\<lparr>down := d\<rparr>) = launches g"
    by (simp add: launches_def)
  show ?thesis
  proof (cases "y (player g) + ((if launches g then - 650 else vy (player g)) + GRAVITY * dt) * dt
      + h (player g) > GROUND_Y")
    case True
    with update_vertical [of g dt] update_vertical [of "g\<lparr>down := d\<rparr>" dt] show ?thesis
      by (simp add: Let_def l)
  next
    case False
    with update_vertical [of g dt] update_vertical [of "g\<lparr>down := d\<rparr>" dt] show ?thesis
      by (simp add: Let_def l)
  qed
qed

section \<open>Resting on the ground\<close>

lemma update_resting:
  assumes "onGround (player g)" "\<not> launches g" "y (player g) + h (player g) = GROUND_Y"
    "vy (player g) = 0" "dt \<noteq> 0"
  shows "grounded (player (update dt g))"
proof -
  have "0 < dt * dt"
    using \<open>dt \<noteq> 0\<close> not_real_square_gt_zero [of dt] by blast
  then have "GRAVITY * dt * dt > 0"
    by (simp add: GRAVITY_def mult.assoc)
  then have "y (player g) + (vy (player g) + GRAVITY * dt) * dt + h (player g) > GROUND_Y"
    using assms by simp
  with update_vertical [of g dt] assms(2) show ?thesis
    by (simp add: Let_def grounded_def update_size)
qed

lemma grounded_steps:
  assumes "grounded (player g)"
    and "\<forall>(d, pr) \<in> set ins. ''Space'' \<notin> pr \<and> ''KeyW'' \<notin> pr \<and> ''ArrowUp'' \<notin> pr"
  shows "grounded (player (steps ins g))"
  using assms
proof (induction ins arbitrary: g)
  case Nil
  then show ?case by simp
next
  case (Cons i ins)
  obtain d pr where i: "i = (d, pr)"
    by (cases i)
  let ?g = "g\<lparr>down := d, pressed := pr\<rparr>"
  from Cons.prems(2) i have "\<not> launches ?g"
    by (simp add: launches_def)
  moreover from Cons.prems(1) have "onGround (player ?g)" "y (player ?g) + h (player ?g) = GROUND_Y"
    "vy (player ?g) = 0"
    by (simp_all add: grounded_def)
  ultimately have "grounded (player (update STEP ?g))"
    by (intro update_resting) (simp_all add: STEP_def)
  moreover from Cons.prems(2) have "\<forall>(d, pr) \<in> set ins. ''Space'' \<notin> pr \<and> ''KeyW'' \<notin> pr \<and> ''ArrowUp'' \<notin> pr"
    by simp
  ultimately show ?case
    by (simp add: i Cons.IH)
qed

text \<open>
  C3. From a grounded entity, a run of physics steps in none of which a jump code is in
  \<open>pressed\<close> (whatever is held) ends every step grounded: \<open>onGround\<close> true, \<open>vy = 0\<close> and
  \<open>y = GROUND_Y - h\<close>.
\<close>

theorem grounded_stays:
  assumes "grounded (player g)"
    and "\<forall>(d, pr) \<in> set ins. ''Space'' \<notin> pr \<and> ''KeyW'' \<notin> pr \<and> ''ArrowUp'' \<notin> pr"
  shows "\<forall>k \<le> length ins. grounded (player (steps (take k ins) g))"
proof (intro allI impI)
  fix k
  have "set (take k ins) \<subseteq> set ins"
    by (rule set_take_subset)
  with assms(2) have "\<forall>(d, pr) \<in> set (take k ins). ''Space'' \<notin> pr \<and> ''KeyW'' \<notin> pr \<and> ''ArrowUp'' \<notin> pr"
    by blast
  with assms(1) show "grounded (player (steps (take k ins) g))"
    by (rule grounded_steps)
qed

text \<open>
  Two steps from the standing player with the jump key held throughout but never newly
  pressed.
\<close>

theorem grounded_stays_witness:
  "grounded (player (standing {} {}))
   \<and> grounded (player (steps [({''Space''}, {}), ({''Space'', ''KeyD''}, {''KeyD''})] (standing {} {})))
   \<and> y (player (steps [({''Space''}, {}), ({''Space'', ''KeyD''}, {''KeyD''})] (standing {} {}))) = 368"
proof -
  have g0: "grounded (player (standing {} {}))"
    by (simp add: grounded_def standing_def GROUND_Y_def)
  have quiet: "\<forall>(d, pr) \<in> set [({''Space''}, {}), ({''Space'', ''KeyD''}, {''KeyD''})].
      ''Space'' \<notin> pr \<and> ''KeyW'' \<notin> pr \<and> ''ArrowUp'' \<notin> pr"
    by simp
  have h0: "h (player (steps [({''Space''}, {}), ({''Space'', ''KeyD''}, {''KeyD''})] (standing {} {}))) = 32"
    by (simp add: update_size standing_def)
  from grounded_stays [OF g0 quiet, THEN spec, of 2] h0 g0 show ?thesis
    by (simp add: grounded_def GROUND_Y_def)
qed

section \<open>The entity's invariant\<close>

lemma entity_inv_update:
  assumes "onGround (player g) \<longrightarrow> y (player g) + h (player g) = GROUND_Y \<and> vy (player g) = 0"
  shows "entity_inv (player (update dt g))"
proof (cases "onGround (player g) \<and> \<not> launches g")
  case True
  show ?thesis
  proof (cases "dt = 0")
    case False
    with True assms have "grounded (player (update dt g))"
      by (simp add: update_resting)
    then show ?thesis
      by (simp add: grounded_def entity_inv_def)
  next
    case dt: True
    with True assms update_vertical [of g dt] show ?thesis
      by (simp add: Let_def entity_inv_def update_size)
  qed
next
  case False
  with update_vertical [of g dt] show ?thesis
    by (auto simp: Let_def entity_inv_def update_size split: if_splits)
qed

lemma entity_inv_steps: "entity_inv (player g) \<Longrightarrow> entity_inv (player (steps ins g))"
proof (induction ins arbitrary: g)
  case Nil
  then show ?case by simp
next
  case (Cons i ins)
  obtain d pr where i: "i = (d, pr)"
    by (cases i)
  have "entity_inv (player (update STEP (g\<lparr>down := d, pressed := pr\<rparr>)))"
    using Cons.prems by (intro entity_inv_update) (simp add: entity_inv_def)
  then show ?case
    by (simp add: i Cons.IH)
qed

text \<open>
  C2. After any run of physics steps from the initial state, whatever the key sets are at
  each step, \<open>y + h \<le> GROUND_Y\<close>, and if \<open>onGround\<close> is true then \<open>y + h = GROUND_Y\<close> and
  \<open>vy = 0\<close>.
\<close>

theorem entity_invariant: "entity_inv (player (steps ins (init t0)))"
proof -
  have "entity_inv (player (init t0))"
    by (simp add: entity_inv_def init_def player0_def GROUND_Y_def)
  then show ?thesis
    by (rule entity_inv_steps)
qed

text \<open>
  The invariant at the state after 18 steps without input, where the falling player has
  landed: \<open>onGround\<close> is true there.
\<close>

theorem entity_invariant_witness:
  "onGround (player (steps (replicate 18 ({}, {})) (init 0)))
   \<and> y (player (steps (replicate 18 ({}, {})) (init 0))) + h (player (steps (replicate 18 ({}, {})) (init 0))) = GROUND_Y
   \<and> vy (player (steps (replicate 18 ({}, {})) (init 0))) = 0"
proof -
  have og: "onGround (player (steps (replicate 18 ({}, {})) (init 0)))"
    by code_simp
  with entity_invariant [of "replicate 18 ({}, {})" 0] show ?thesis
    by (simp add: entity_inv_def)
qed

section \<open>Ground collision\<close>

text \<open>
  The collision block has no \<^verbatim>\<open>else\<close>: when it does not fire, \<open>onGround\<close> is what the jump
  check left. In a state that satisfies the entity's invariant a player flagged \<open>onGround\<close>
  who is not launched is pushed below the ground line by gravity, so the block fires; hence
  when it does not fire, \<open>onGround\<close> is false.
\<close>

lemma ground_collision_inv:
  assumes inv: "onGround (player g) \<longrightarrow> y (player g) + h (player g) = GROUND_Y \<and> vy (player g) = 0"
    and dt: "dt \<noteq> 0"
  shows "if y (player g) + ((if launches g then - 650 else vy (player g)) + GRAVITY * dt) * dt
        + h (player g) > GROUND_Y
      then y (player (update dt g)) = GROUND_Y - h (player g) \<and> vy (player (update dt g)) = 0
        \<and> onGround (player (update dt g))
      else y (player (update dt g))
          = y (player g) + ((if launches g then - 650 else vy (player g)) + GRAVITY * dt) * dt
        \<and> vy (player (update dt g)) = (if launches g then - 650 else vy (player g)) + GRAVITY * dt
        \<and> \<not> onGround (player (update dt g))"
proof -
  let ?v1 = "(if launches g then - 650 else vy (player g)) + GRAVITY * dt"
  let ?y1 = "y (player g) + ?v1 * dt"
  have step: "if ?y1 + h (player g) > GROUND_Y
      then y (player (update dt g)) = GROUND_Y - h (player g) \<and> vy (player (update dt g)) = 0
        \<and> onGround (player (update dt g))
      else y (player (update dt g)) = ?y1 \<and> vy (player (update dt g)) = ?v1
        \<and> onGround (player (update dt g)) = (onGround (player g) \<and> \<not> launches g)"
    using update_vertical [of g dt] by (simp only: Let_def)
  show ?thesis
  proof (cases "?y1 + h (player g) > GROUND_Y")
    case True
    with step show ?thesis
      by (simp only: if_True)
  next
    case air: False
    have "\<not> (onGround (player g) \<and> \<not> launches g)"
    proof
      assume stay: "onGround (player g) \<and> \<not> launches g"
      with inv have rest: "y (player g) + h (player g) = GROUND_Y" "vy (player g) = 0"
        by simp_all
      have "0 < dt * dt"
        using dt not_real_square_gt_zero [of dt] by blast
      then have "GRAVITY * dt * dt > 0"
        by (simp add: GRAVITY_def mult.assoc)
      with rest stay have "?y1 + h (player g) > GROUND_Y"
        by simp
      with air show False
        by simp
    qed
    with step air show ?thesis
      by (simp only: if_False simp_thms)
  qed
qed

text \<open>
  C1. With \<open>y1\<close> the position after integration: if \<open>y1 + h > GROUND_Y\<close> the step ends with
  \<open>y = GROUND_Y - h\<close>, \<open>vy = 0\<close> and \<open>onGround\<close> true; otherwise it ends with \<open>onGround\<close> false
  (and \<open>y\<close>, \<open>vy\<close> the integrated values). This holds for every entity state in which
  \<open>onGround\<close> implies \<open>y + h = GROUND_Y\<close> and \<open>vy = 0\<close> and every \<open>dt \<noteq> 0\<close>, and so, with
  \<open>dt = STEP\<close>, for every state the entity has after a run of physics steps from the initial
  state, whatever the key sets at the step are.
\<close>

theorem update_ground_collision:
  "(let p = player g;
        v1 = (if launches g then - 650 else vy p) + GRAVITY * dt;
        y1 = y p + v1 * dt;
        q = player (update dt g)
    in (onGround p \<longrightarrow> y p + h p = GROUND_Y \<and> vy p = 0) \<and> dt \<noteq> 0 \<longrightarrow>
       (if y1 + h p > GROUND_Y
        then y q = GROUND_Y - h p \<and> vy q = 0 \<and> onGround q
        else y q = y1 \<and> vy q = v1 \<and> \<not> onGround q))
   \<and> (let g' = (steps ins (init t0))\<lparr>down := d, pressed := pr\<rparr>;
           p = player g';
           v1 = (if launches g' then - 650 else vy p) + GRAVITY * STEP;
           y1 = y p + v1 * STEP;
           q = player (update STEP g')
       in if y1 + h p > GROUND_Y
          then y q = GROUND_Y - h p \<and> vy q = 0 \<and> onGround q
          else y q = y1 \<and> vy q = v1 \<and> \<not> onGround q)"
proof (rule conjI)
  show "let p = player g;
        v1 = (if launches g then - 650 else vy p) + GRAVITY * dt;
        y1 = y p + v1 * dt;
        q = player (update dt g)
    in (onGround p \<longrightarrow> y p + h p = GROUND_Y \<and> vy p = 0) \<and> dt \<noteq> 0 \<longrightarrow>
       (if y1 + h p > GROUND_Y
        then y q = GROUND_Y - h p \<and> vy q = 0 \<and> onGround q
        else y q = y1 \<and> vy q = v1 \<and> \<not> onGround q)"
    unfolding Let_def using ground_collision_inv [of g dt] by blast
next
  let ?g = "(steps ins (init t0))\<lparr>down := d, pressed := pr\<rparr>"
  have "entity_inv (player (init t0))"
    by (simp add: entity_inv_def init_def player0_def GROUND_Y_def)
  then have "entity_inv (player (steps ins (init t0)))"
    by (rule entity_inv_steps)
  then have "onGround (player ?g) \<longrightarrow> y (player ?g) + h (player ?g) = GROUND_Y \<and> vy (player ?g) = 0"
    by (simp add: entity_inv_def)
  moreover have "STEP \<noteq> 0"
    by (simp add: STEP_def)
  ultimately show "let g' = ?g;
           p = player g';
           v1 = (if launches g' then - 650 else vy p) + GRAVITY * STEP;
           y1 = y p + v1 * STEP;
           q = player (update STEP g')
       in if y1 + h p > GROUND_Y
          then y q = GROUND_Y - h p \<and> vy q = 0 \<and> onGround q
          else y q = y1 \<and> vy q = v1 \<and> \<not> onGround q"
    unfolding Let_def by (rule ground_collision_inv)
qed

text \<open>
  Both branches at the standing player: without a jump the step ends on the ground line
  again; with the jump key newly pressed the integrated position is above the ground line
  and the step ends with \<open>onGround\<close> false.
\<close>

theorem update_ground_collision_witness:
  "(onGround (player (standing {} {}))
      \<and> y (player (standing {} {})) + h (player (standing {} {})) = GROUND_Y
      \<and> vy (player (standing {} {})) = 0)
   \<and> STEP \<noteq> 0
   \<and> 368 + (0 + GRAVITY * STEP) * STEP + 32 > GROUND_Y
   \<and> y (player (update STEP (standing {} {}))) = GROUND_Y - 32
   \<and> vy (player (update STEP (standing {} {}))) = 0
   \<and> onGround (player (update STEP (standing {} {})))
   \<and> (onGround (player (standing {} {''Space''}))
      \<and> y (player (standing {} {''Space''})) + h (player (standing {} {''Space''})) = GROUND_Y
      \<and> vy (player (standing {} {''Space''})) = 0)
   \<and> \<not> (368 + (- 650 + GRAVITY * STEP) * STEP + 32 > GROUND_Y)
   \<and> y (player (update STEP (standing {} {''Space''}))) = 368 + (- 650 + GRAVITY * STEP) * STEP
   \<and> \<not> onGround (player (update STEP (standing {} {''Space''})))"
proof -
  have a: "y (player (update STEP (standing {} {}))) = GROUND_Y - 32
      \<and> vy (player (update STEP (standing {} {}))) = 0
      \<and> onGround (player (update STEP (standing {} {})))"
    using update_ground_collision [of "standing {} {}" STEP, THEN conjunct1]
    by (simp add: Let_def launches_def standing_def STEP_def GROUND_Y_def GRAVITY_def)
  have b: "y (player (update STEP (standing {} {''Space''}))) = 368 + (- 650 + GRAVITY * STEP) * STEP
      \<and> \<not> onGround (player (update STEP (standing {} {''Space''})))"
    using update_ground_collision [of "standing {} {''Space''}" STEP, THEN conjunct1]
    by (simp add: Let_def launches_def standing_def STEP_def GROUND_Y_def GRAVITY_def)
  have c: "onGround (player (standing {} {})) \<and> y (player (standing {} {})) + h (player (standing {} {})) = GROUND_Y
      \<and> vy (player (standing {} {})) = 0"
    "onGround (player (standing {} {''Space''}))
      \<and> y (player (standing {} {''Space''})) + h (player (standing {} {''Space''})) = GROUND_Y
      \<and> vy (player (standing {} {''Space''})) = 0"
    "STEP \<noteq> 0" "368 + (0 + GRAVITY * STEP) * STEP + 32 > GROUND_Y"
    "\<not> (368 + (- 650 + GRAVITY * STEP) * STEP + 32 > GROUND_Y)"
    by (simp_all add: standing_def STEP_def GROUND_Y_def GRAVITY_def)
  from a b c show ?thesis
    by (elim conjE) (intro conjI; assumption)
qed

section \<open>The jump\<close>

text \<open>
  C5. A step launches a jump exactly when \<open>onGround\<close> is true and a jump code is in
  \<open>pressed\<close>. With a launch, unless the ground is hit in the same step, the step ends with
  \<open>vy = -650 + GRAVITY * dt\<close> (the launch velocity with this step's gravity already
  added: the check comes before gravity) and \<open>onGround\<close> false. Without a launch \<open>vy\<close> only
  gains gravity and \<open>onGround\<close> is unchanged, unless the ground is hit. The set \<open>down\<close> of held
  keys has no influence on \<open>y\<close>, \<open>vy\<close> and \<open>onGround\<close>: a held jump code never launches. From
  the ground line a launch with \<open>dt = STEP\<close> does leave the ground.
\<close>

theorem jump_launch:
  "let p = player g;
       q = player (update dt g);
       y_up = y p + (- 650 + GRAVITY * dt) * dt;
       y_no = y p + (vy p + GRAVITY * dt) * dt
   in (launches g \<longrightarrow>
         (if y_up + h p > GROUND_Y
          then y q = GROUND_Y - h p \<and> vy q = 0 \<and> onGround q
          else y q = y_up \<and> vy q = - 650 + GRAVITY * dt \<and> \<not> onGround q))
    \<and> (\<not> launches g \<longrightarrow>
         (if y_no + h p > GROUND_Y
          then y q = GROUND_Y - h p \<and> vy q = 0 \<and> onGround q
          else y q = y_no \<and> vy q = vy p + GRAVITY * dt \<and> onGround q = onGround p))
    \<and> (\<forall>d. y (player (update dt (g\<lparr>down := d\<rparr>))) = y q
           \<and> vy (player (update dt (g\<lparr>down := d\<rparr>))) = vy q
           \<and> onGround (player (update dt (g\<lparr>down := d\<rparr>))) = onGround q)
    \<and> (launches g \<and> y p + h p = GROUND_Y \<longrightarrow>
         vy (player (update STEP g)) = - 650 + GRAVITY * STEP \<and> \<not> onGround (player (update STEP g)))"
proof -
  have up: "launches g \<longrightarrow>
         (if y (player g) + (- 650 + GRAVITY * dt) * dt + h (player g) > GROUND_Y
          then y (player (update dt g)) = GROUND_Y - h (player g) \<and> vy (player (update dt g)) = 0
            \<and> onGround (player (update dt g))
          else y (player (update dt g)) = y (player g) + (- 650 + GRAVITY * dt) * dt
            \<and> vy (player (update dt g)) = - 650 + GRAVITY * dt \<and> \<not> onGround (player (update dt g)))"
    using update_vertical [of g dt] by (simp add: Let_def)
  have no: "\<not> launches g \<longrightarrow>
         (if y (player g) + (vy (player g) + GRAVITY * dt) * dt + h (player g) > GROUND_Y
          then y (player (update dt g)) = GROUND_Y - h (player g) \<and> vy (player (update dt g)) = 0
            \<and> onGround (player (update dt g))
          else y (player (update dt g)) = y (player g) + (vy (player g) + GRAVITY * dt) * dt
            \<and> vy (player (update dt g)) = vy (player g) + GRAVITY * dt
            \<and> onGround (player (update dt g)) = onGround (player g))"
    using update_vertical [of g dt] by (simp add: Let_def)
  have hold: "\<forall>d. y (player (update dt (g\<lparr>down := d\<rparr>))) = y (player (update dt g))
           \<and> vy (player (update dt (g\<lparr>down := d\<rparr>))) = vy (player (update dt g))
           \<and> onGround (player (update dt (g\<lparr>down := d\<rparr>))) = onGround (player (update dt g))"
    by (simp add: update_vertical_down)
  have off: "launches g \<and> y (player g) + h (player g) = GROUND_Y \<longrightarrow>
         vy (player (update STEP g)) = - 650 + GRAVITY * STEP \<and> \<not> onGround (player (update STEP g))"
  proof
    assume a: "launches g \<and> y (player g) + h (player g) = GROUND_Y"
    then have "\<not> y (player g) + (- 650 + GRAVITY * STEP) * STEP + h (player g) > GROUND_Y"
      by (simp add: GRAVITY_def STEP_def)
    with a update_vertical [of g STEP]
    show "vy (player (update STEP g)) = - 650 + GRAVITY * STEP \<and> \<not> onGround (player (update STEP g))"
      by (simp add: Let_def)
  qed
  from up no hold off show ?thesis
    unfolding Let_def by (intro conjI)
qed

text \<open>
  The standing player with the jump key newly pressed is launched; with the jump key only
  held, the player stays on the ground.
\<close>

theorem jump_launch_witness:
  "launches (standing {''Space''} {''Space''})
   \<and> vy (player (update STEP (standing {''Space''} {''Space''}))) = - 650 + GRAVITY * STEP
   \<and> \<not> onGround (player (update STEP (standing {''Space''} {''Space''})))
   \<and> \<not> launches (standing {''Space''} {})
   \<and> vy (player (update STEP (standing {''Space''} {}))) = 0
   \<and> onGround (player (update STEP (standing {''Space''} {})))"
proof -
  have l1: "launches (standing {''Space''} {''Space''})"
    and g1: "y (player (standing {''Space''} {''Space''})) + h (player (standing {''Space''} {''Space''})) = GROUND_Y"
    by (simp_all add: launches_def standing_def GROUND_Y_def)
  have l2: "\<not> launches (standing {''Space''} {})"
    by (simp add: launches_def standing_def)
  from jump_launch [of "standing {''Space''} {''Space''}" STEP] l1 g1
  have "vy (player (update STEP (standing {''Space''} {''Space''}))) = - 650 + GRAVITY * STEP
      \<and> \<not> onGround (player (update STEP (standing {''Space''} {''Space''})))"
    by (simp add: Let_def)
  moreover from jump_launch [of "standing {''Space''} {}" STEP] l2
  have "vy (player (update STEP (standing {''Space''} {}))) = 0
      \<and> onGround (player (update STEP (standing {''Space''} {})))"
    by (simp add: Let_def standing_def GRAVITY_def STEP_def GROUND_Y_def)
  ultimately show ?thesis
    using l1 l2 by simp
qed

section \<open>Horizontal motion\<close>

lemma update_horizontal:
  "vx (player (update dt g))
     = (vx (player g) + ((if push_left (down g) then - MOVE_ACCEL else 0)
          + (if push_right (down g) then MOVE_ACCEL else 0)) * dt) * FRICTION
   \<and> x (player (update dt g)) = x (player g) + vx (player (update dt g)) * dt"
  by (simp add: update_def Let_def held_def push_left_def push_right_def)

lemma steps_append: "steps (ins @ ins') g = steps ins' (steps ins g)"
  by (induction ins arbitrary: g) auto

lemma steps_take_Suc:
  assumes "k < length ins"
  shows "steps (take (Suc k) ins) g
     = update STEP ((steps (take k ins) g)\<lparr>down := fst (ins ! k), pressed := snd (ins ! k)\<rparr>)"
proof -
  obtain d pr where i: "ins ! k = (d, pr)"
    by (cases "ins ! k")
  from assms have "take (Suc k) ins = take k ins @ [ins ! k]"
    by (rule take_Suc_conv_app_nth)
  then show ?thesis
    by (simp add: steps_append i)
qed

lemma push_step:
  assumes "push_right d" "\<not> push_left d"
  shows "vx (player (update STEP (g\<lparr>down := d, pressed := pr\<rparr>)))
      = (vx (player g) + MOVE_ACCEL * STEP) * FRICTION"
    and "x (player (update STEP (g\<lparr>down := d, pressed := pr\<rparr>)))
      = x (player g) + vx (player (update STEP (g\<lparr>down := d, pressed := pr\<rparr>))) * STEP"
  using assms update_horizontal [of STEP "g\<lparr>down := d, pressed := pr\<rparr>"] by simp_all

lemma push_closed_form:
  assumes "vx (player g) = 0"
    and "\<forall>(d, pr) \<in> set ins. push_right d \<and> \<not> push_left d"
  shows "vx (player (steps ins g)) = vx_eq * (1 - FRICTION ^ length ins)"
  using assms(2)
proof (induction ins rule: rev_induct)
  case Nil
  with assms(1) show ?case by simp
next
  case (snoc i ins)
  obtain d pr where i: "i = (d, pr)"
    by (cases i)
  from snoc.prems i have d: "push_right d" "\<not> push_left d"
    by simp_all
  from snoc.prems have "\<forall>(d, pr) \<in> set ins. push_right d \<and> \<not> push_left d"
    by simp
  then have IH: "vx (player (steps ins g)) = vx_eq * (1 - FRICTION ^ length ins)"
    by (rule snoc.IH)
  have "vx (player (steps (ins @ [i]) g)) = (vx (player (steps ins g)) + MOVE_ACCEL * STEP) * FRICTION"
    by (simp add: steps_append i push_step(1) [OF d])
  also have "\<dots> = vx_eq * (1 - FRICTION ^ length (ins @ [i]))"
    by (simp add: IH vx_eq_def FRICTION_def MOVE_ACCEL_def STEP_def algebra_simps)
  finally show ?case .
qed

text \<open>
  C9. Every step ends with \<open>vx = (vx + ax * dt) * FRICTION\<close>, where \<open>ax\<close> is the control
  acceleration of the held keys: friction multiplies the velocity that the acceleration
  has already changed. The velocity \<open>vx_eq = MOVE_ACCEL * STEP * FRICTION / (1 - FRICTION)\<close> is
  the one fixed point of \<open>v \<mapsto> (v + MOVE_ACCEL * STEP) * FRICTION\<close>. From \<open>vx = 0\<close>, in a run
  of steps with a move-right key and no move-left key held, each step takes \<open>vx\<close> to
  \<open>(vx + MOVE_ACCEL * STEP) * FRICTION\<close>, which after \<open>k + 1\<close> steps is
  \<open>vx_eq * (1 - FRICTION ^ (k + 1))\<close>, and each step strictly increases \<open>x\<close>. The run may have
  any length, 60 among them.
\<close>

theorem friction_after_acceleration:
  "vx (player (update dt g))
     = (vx (player g) + ((if push_left (down g) then - MOVE_ACCEL else 0)
          + (if push_right (down g) then MOVE_ACCEL else 0)) * dt) * FRICTION
   \<and> (\<forall>v. v = (v + MOVE_ACCEL * STEP) * FRICTION \<longleftrightarrow> v = vx_eq)
   \<and> (vx (player g) = 0 \<and> (\<forall>(d, pr) \<in> set ins. push_right d \<and> \<not> push_left d) \<longrightarrow>
        (\<forall>k < length ins.
           vx (player (steps (take (Suc k) ins) g))
             = (vx (player (steps (take k ins) g)) + MOVE_ACCEL * STEP) * FRICTION
           \<and> vx (player (steps (take (Suc k) ins) g)) = vx_eq * (1 - FRICTION ^ Suc k)
           \<and> x (player (steps (take k ins) g)) < x (player (steps (take (Suc k) ins) g))))"
proof (intro conjI allI impI)
  show "vx (player (update dt g))
     = (vx (player g) + ((if push_left (down g) then - MOVE_ACCEL else 0)
          + (if push_right (down g) then MOVE_ACCEL else 0)) * dt) * FRICTION"
    using update_horizontal [of dt g] by simp
next
  fix v :: real
  show "v = (v + MOVE_ACCEL * STEP) * FRICTION \<longleftrightarrow> v = vx_eq"
    by (auto simp: vx_eq_def FRICTION_def MOVE_ACCEL_def STEP_def)
next
  fix k
  assume a: "vx (player g) = 0 \<and> (\<forall>(d, pr) \<in> set ins. push_right d \<and> \<not> push_left d)"
    and k: "k < length ins"
  obtain d pr where i: "ins ! k = (d, pr)"
    by (cases "ins ! k")
  from k have "ins ! k \<in> set ins"
    by simp
  with a i have d: "push_right d" "\<not> push_left d"
    by auto
  have "set (take (Suc k) ins) \<subseteq> set ins"
    by (rule set_take_subset)
  with a have "\<forall>(d, pr) \<in> set (take (Suc k) ins). push_right d \<and> \<not> push_left d"
    by blast
  with a have "vx (player (steps (take (Suc k) ins) g)) = vx_eq * (1 - FRICTION ^ length (take (Suc k) ins))"
    by (intro push_closed_form) simp_all
  moreover from k have "length (take (Suc k) ins) = Suc k"
    by simp
  ultimately show closed: "vx (player (steps (take (Suc k) ins) g)) = vx_eq * (1 - FRICTION ^ Suc k)"
    by (simp only:)
  show "vx (player (steps (take (Suc k) ins) g))
      = (vx (player (steps (take k ins) g)) + MOVE_ACCEL * STEP) * FRICTION"
    by (simp add: steps_take_Suc [OF k] i push_step(1) [OF d])
  have "0 < FRICTION" "FRICTION < 1"
    by (simp_all add: FRICTION_def)
  then have "FRICTION ^ Suc k < 1"
    by (rule power_Suc_less_one)
  then have "0 < 1 - FRICTION ^ Suc k"
    by (simp only: diff_gt_0_iff_gt)
  moreover have "0 < vx_eq"
    by (simp add: vx_eq_def FRICTION_def MOVE_ACCEL_def STEP_def)
  ultimately have "0 < vx_eq * (1 - FRICTION ^ Suc k)"
    by (rule mult_pos_pos [rotated])
  with closed have "0 < vx (player (steps (take (Suc k) ins) g))"
    by (simp only:)
  then have "0 < vx (player (steps (take (Suc k) ins) g)) * STEP"
    by (simp add: STEP_def)
  moreover have "x (player (steps (take (Suc k) ins) g))
      = x (player (steps (take k ins) g)) + vx (player (steps (take (Suc k) ins) g)) * STEP"
    by (simp add: steps_take_Suc [OF k] i push_step(2) [OF d])
  ultimately show "x (player (steps (take k ins) g)) < x (player (steps (take (Suc k) ins) g))"
    by simp
qed

text \<open>
  Two steps of the standing player, the first with the right arrow held and the second
  with the D key held.
\<close>

theorem friction_after_acceleration_witness:
  "vx (player (standing {} {})) = 0
   \<and> push_right {''ArrowRight''} \<and> \<not> push_left {''ArrowRight''}
   \<and> push_right {''KeyD''} \<and> \<not> push_left {''KeyD''}
   \<and> vx (player (steps [({''ArrowRight''}, {}), ({''KeyD''}, {})] (standing {} {})))
       = (vx (player (steps [({''ArrowRight''}, {})] (standing {} {}))) + MOVE_ACCEL * STEP) * FRICTION
   \<and> vx (player (steps [({''ArrowRight''}, {}), ({''KeyD''}, {})] (standing {} {})))
       = vx_eq * (1 - FRICTION ^ 2)
   \<and> x (player (steps [({''ArrowRight''}, {})] (standing {} {})))
       < x (player (steps [({''ArrowRight''}, {}), ({''KeyD''}, {})] (standing {} {})))"
proof -
  let ?ins = "[({''ArrowRight''}, {}), ({''KeyD''}, {})] :: (string set \<times> string set) list"
  have rest: "vx (player (standing {} {})) = 0"
    by (simp add: standing_def)
  have keys: "push_right {''ArrowRight''} \<and> \<not> push_left {''ArrowRight''}
      \<and> push_right {''KeyD''} \<and> \<not> push_left {''KeyD''}"
    by (simp add: push_right_def push_left_def)
  then have all: "\<forall>(d, pr) \<in> set ?ins. push_right d \<and> \<not> push_left d"
    by simp
  have k: "Suc 0 < length ?ins"
    by simp
  have t: "take (Suc 0) ?ins = [({''ArrowRight''}, {})]" "take (Suc (Suc 0)) ?ins = ?ins"
    "FRICTION ^ Suc (Suc 0) = FRICTION ^ 2"
    by (simp_all add: power2_eq_square)
  note step = friction_after_acceleration [of STEP "standing {} {}" ?ins, THEN conjunct2,
      THEN conjunct2, THEN mp, OF conjI [OF rest all], THEN spec, of "Suc 0", THEN mp, OF k,
      unfolded t]
  from rest keys step show ?thesis
    by (elim conjE) (intro conjI; assumption)
qed

section \<open>The scheduler\<close>

lemma update_acc: "acc_t (update dt g) = acc_t g"
  by (simp add: update_def Let_def)

lemma update_last: "last_t (update dt g) = last_t g"
  by (simp add: update_def Let_def)

lemma drain_acc_less: "acc_t (fst (drain g n)) < STEP"
proof (induction g n rule: drain.induct)
  case (1 g n)
  show ?case
  proof (cases "STEP \<le> acc_t g")
    case True
    with "1.IH" show ?thesis
      by (subst drain.simps) (simp add: Let_def)
  next
    case False
    then show ?thesis
      by (subst drain.simps) simp
  qed
qed

lemma drain_acc_nonneg: "0 \<le> acc_t g \<Longrightarrow> 0 \<le> acc_t (fst (drain g n))"
proof (induction g n rule: drain.induct)
  case (1 g n)
  show ?case
  proof (cases "STEP \<le> acc_t g")
    case True
    with "1.IH" show ?thesis
      by (subst drain.simps) (simp add: Let_def update_acc)
  next
    case False
    with "1.prems" show ?thesis
      by (subst drain.simps) simp
  qed
qed

lemma drain_last: "last_t (fst (drain g n)) = last_t g"
proof (induction g n rule: drain.induct)
  case (1 g n)
  show ?case
  proof (cases "STEP \<le> acc_t g")
    case True
    with "1.IH" show ?thesis
      by (subst drain.simps) (simp add: Let_def update_last)
  next
    case False
    then show ?thesis
      by (subst drain.simps) simp
  qed
qed

lemma floor_after_step:
  assumes "STEP \<le> a"
  shows "nat \<lfloor>a / STEP\<rfloor> = Suc (nat \<lfloor>(a - STEP) / STEP\<rfloor>)"
proof -
  define k where "k = \<lfloor>a / STEP\<rfloor>"
  have "1 \<le> a / STEP"
    using assms by (simp add: STEP_def)
  then have "1 \<le> \<lfloor>a / STEP\<rfloor>"
    by simp
  then have one: "1 \<le> k"
    by (simp only: k_def)
  have "(a - STEP) / STEP = a / STEP - 1"
    by (simp add: STEP_def)
  then have "\<lfloor>(a - STEP) / STEP\<rfloor> = \<lfloor>a / STEP\<rfloor> - 1"
    by simp
  then have "\<lfloor>(a - STEP) / STEP\<rfloor> = k - 1"
    by (simp only: k_def)
  moreover from one have "nat k = Suc (nat (k - 1))"
    by linarith
  ultimately show ?thesis
    by (simp only: k_def)
qed

lemma floor_below_step:
  assumes "\<not> STEP \<le> a"
  shows "nat \<lfloor>a / STEP\<rfloor> = 0"
proof -
  have "a / STEP < 1"
    using assms by (simp add: STEP_def)
  then have "\<lfloor>a / STEP\<rfloor> \<le> 0"
    by (simp add: floor_le_iff)
  then show ?thesis
    by simp
qed

lemma drain_count: "snd (drain g n) = n + nat \<lfloor>acc_t g / STEP\<rfloor>"
proof (induction g n rule: drain.induct)
  case (1 g n)
  show ?case
  proof (cases "STEP \<le> acc_t g")
    case True
    with "1.IH" show ?thesis
      by (subst drain.simps) (simp add: Let_def update_acc floor_after_step [of "acc_t g"])
  next
    case False
    then show ?thesis
      by (subst drain.simps) (simp add: floor_below_step)
  qed
qed

lemma drain_acc_value: "acc_t (fst (drain g n)) = acc_t g - STEP * real (nat \<lfloor>acc_t g / STEP\<rfloor>)"
proof (induction g n rule: drain.induct)
  case (1 g n)
  show ?case
  proof (cases "STEP \<le> acc_t g")
    case True
    with "1.IH" show ?thesis
      by (subst drain.simps)
        (simp add: Let_def update_acc floor_after_step [of "acc_t g"] algebra_simps)
  next
    case False
    then show ?thesis
      by (subst drain.simps) (simp add: floor_below_step)
  qed
qed

lemma loop_count:
  "snd (loop now g)
     = nat \<lfloor>(acc_t g + (if now - last_t g > 1 / 4 then 1 / 4 else now - last_t g)) / STEP\<rfloor>"
  by (simp add: loop_def Let_def drain_count)

lemma loop_acc:
  assumes "0 \<le> acc_t g" and "last_t g \<le> now"
  shows "0 \<le> acc_t (fst (loop now g)) \<and> acc_t (fst (loop now g)) < STEP"
  using assms by (simp add: loop_def Let_def drain_acc_less drain_acc_nonneg)

lemma loop_last: "last_t (fst (loop now g)) = now"
  by (simp add: loop_def Let_def drain_last)

lemma run_acc:
  "0 \<le> acc_t g \<Longrightarrow> acc_t g < STEP \<Longrightarrow> monotone_clock (last_t g) evs \<Longrightarrow>
     0 \<le> acc_t (run evs g) \<and> acc_t (run evs g) < STEP"
proof (induction evs arbitrary: g)
  case Nil
  then show ?case by simp
next
  case (Cons e evs)
  show ?case
  proof (cases e)
    case (KeyDown code)
    with Cons.prems Cons.IH [of "keydown code g"] show ?thesis
      by (simp add: keydown_def Let_def)
  next
    case (KeyUp code)
    with Cons.prems Cons.IH [of "keyup code g"] show ?thesis
      by (simp add: keyup_def)
  next
    case (Frame now)
    with Cons.prems have "last_t g \<le> now" "monotone_clock now evs"
      by simp_all
    with Cons.prems(1) Cons.IH [of "fst (loop now g)"] Frame show ?thesis
      by (simp add: loop_acc loop_last)
  qed
qed

text \<open>
  C6. After the \<^verbatim>\<open>while\<close> loop of a tick the accumulator is at least 0 and less than
  \<open>STEP\<close>, however long the time since the last tick: for one tick from any state with a
  non-negative accumulator, and hence after every event of a run from the initial state.
  The clock does not run backwards.
\<close>

theorem accumulator_range:
  "(0 \<le> acc_t g \<and> last_t g \<le> now \<longrightarrow>
      0 \<le> acc_t (fst (loop now g)) \<and> acc_t (fst (loop now g)) < STEP)
   \<and> (monotone_clock t0 evs \<longrightarrow>
      0 \<le> acc_t (run evs (init t0)) \<and> acc_t (run evs (init t0)) < STEP)"
proof (intro conjI impI)
  assume "monotone_clock t0 evs"
  then show "0 \<le> acc_t (run evs (init t0))" "acc_t (run evs (init t0)) < STEP"
    using run_acc [of "init t0" evs] by (simp_all add: init_def STEP_def)
qed (simp_all add: loop_acc)

text \<open>
  A tick ten seconds after the start, and a run of three frames, the last after a long
  stall.
\<close>

theorem accumulator_range_witness:
  "0 \<le> acc_t (init 0) \<and> last_t (init 0) \<le> 10
   \<and> 0 \<le> acc_t (fst (loop 10 (init 0))) \<and> acc_t (fst (loop 10 (init 0))) < STEP
   \<and> monotone_clock 0 [Frame (1 / 100), KeyDown ''Space'', Frame (3 / 100), Frame 7]
   \<and> 0 \<le> acc_t (run [Frame (1 / 100), KeyDown ''Space'', Frame (3 / 100), Frame 7] (init 0))
   \<and> acc_t (run [Frame (1 / 100), KeyDown ''Space'', Frame (3 / 100), Frame 7] (init 0)) < STEP"
proof -
  have a: "0 \<le> acc_t (init 0) \<and> last_t (init 0) \<le> 10"
    by (simp add: init_def)
  have m: "monotone_clock 0 [Frame (1 / 100), KeyDown ''Space'', Frame (3 / 100), Frame 7]"
    by simp
  from a m accumulator_range [of "init 0" 10 0 "[Frame (1 / 100), KeyDown ''Space'', Frame (3 / 100), Frame 7]"]
  show ?thesis
    by simp
qed

text \<open>
  C7. A tick whose elapsed time is at least 0.25 seconds makes as many physics steps as
  a tick whose elapsed time is exactly 0.25 seconds; so does one whose elapsed time is ten
  times 0.25 seconds.
\<close>

theorem stall_clamp:
  "(1 / 4 \<le> now - last_t g \<longrightarrow> snd (loop now g) = snd (loop (last_t g + 1 / 4) g))
   \<and> snd (loop (last_t g + 10 * (1 / 4)) g) = snd (loop (last_t g + 1 / 4) g)"
proof -
  have same: "snd (loop t g) = snd (loop (last_t g + 1 / 4) g)" if "1 / 4 \<le> t - last_t g" for t
  proof -
    from that have "(if t - last_t g > 1 / 4 then 1 / 4 else t - last_t g) = 1 / 4"
      by auto
    then show ?thesis
      by (simp only: loop_count) simp
  qed
  have "snd (loop (last_t g + 10 * (1 / 4)) g) = snd (loop (last_t g + 1 / 4) g)"
    by (rule same) simp
  with same show ?thesis
    by blast
qed

text \<open>
  The first tick, 2.5 seconds and 0.25 seconds after the start: 15 physics steps each.
\<close>

theorem stall_clamp_witness:
  "1 / 4 \<le> 10 * (1 / 4) - last_t (init 0)
   \<and> snd (loop (10 * (1 / 4)) (init 0)) = snd (loop (1 / 4) (init 0))
   \<and> snd (loop (1 / 4) (init 0)) = 15"
proof -
  have a: "1 / 4 \<le> 10 * (1 / 4) - last_t (init 0)"
    and l: "last_t (init 0) = 0"
    by (simp_all add: init_def)
  have n: "snd (loop (1 / 4) (init 0)) = 15"
    by (simp add: loop_count init_def STEP_def)
  from stall_clamp [of "10 * (1 / 4)" "init 0"] a n show ?thesis
    by (simp add: l)
qed


lemma update_pressed: "pressed (update dt g) = pressed g"
  by (simp add: update_def Let_def)





end
